theory Spec2Isabelle
  imports Complex_Main "HOL-Library.Multiset" "HOL-Library.Log_Nat"
begin

section \<open>The todo controller of nesa-todo-backend\<close>

text \<open>
  The development embeds \<^verbatim>\<open>src/controllers/todoController.js\<close>: the list operation
  \<^verbatim>\<open>getAllTodos\<close>, the statistics operation \<^verbatim>\<open>getTodoStats\<close> and \<^verbatim>\<open>deleteTodo\<close>.
  The Firestore client is not part of the repository. The controller's use of it is kept
  (\<^verbatim>\<open>where\<close>, \<^verbatim>\<open>orderBy\<close>, \<^verbatim>\<open>limit\<close>, \<^verbatim>\<open>startAfter\<close>, \<^verbatim>\<open>count\<close>, \<^verbatim>\<open>get\<close>, \<^verbatim>\<open>delete\<close>), and what
  the repository does not fix about the store is a field of the store: the order that
  \<^verbatim>\<open>orderBy\<close> produces, the answer to a limit that is not a positive integer, and the
  document ids that the client refuses. The store is taken to be reachable: the \<^verbatim>\<open>catch\<close>
  branches are reached in the model through a limit or an id that the client refuses.
\<close>

subsection \<open>JavaScript numbers and dates\<close>

text \<open>
  The numbers of the controller are integers, \<^verbatim>\<open>NaN\<close> and the two infinities: \<^verbatim>\<open>parseInt\<close>
  yields an integer-valued double, \<^verbatim>\<open>NaN\<close>, or an infinity for a digit string beyond the
  range of a double. \<open>Num n\<close> stands for a double whose value is the integer \<open>n\<close>. Every
  comparison with \<^verbatim>\<open>NaN\<close> is false. (The negative zero is read as \<open>Num 0\<close>.)
\<close>

datatype jsnum = NaN | Num int | PosInf | NegInf

text \<open>
  Every arithmetic result is the nearest double (53 significant bits, ties to the even
  significand). \<open>nearest_double a b\<close> rounds the quotient of two positive integers, with the
  exponent not bounded; overflow is written out where a result can reach it.
\<close>

definition round_half_even :: "rat \<Rightarrow> int" where
  "round_half_even x =
     (let n = \<lfloor>x\<rfloor>; r = x - of_int n
      in if r < 1 / 2 then n else if 1 / 2 < r then n + 1 else if even n then n else n + 1)"

text \<open>For positive \<open>a\<close> and \<open>b\<close>, the \<open>e\<close> with \<open>2^e \<le> a / b < 2^(e + 1)\<close>.\<close>

definition binary_exponent :: "int \<Rightarrow> int \<Rightarrow> int" where
  "binary_exponent a b =
     (if b \<le> a then bitlen (a div b) - 1 else - bitlen ((b - 1) div a))"

definition nearest_double :: "int \<Rightarrow> int \<Rightarrow> rat" where
  "nearest_double a b =
     (if a = 0 then 0
      else let e = binary_exponent a b;
               m = round_half_even (of_int a / of_int b * 2 powi (52 - e))
           in of_int m * 2 powi (e - 52))"

definition to_double :: "rat \<Rightarrow> rat" where
  "to_double x = (case quotient_of \<bar>x\<bar> of (a, b) \<Rightarrow> sgn x * nearest_double a b)"

text \<open>\<^verbatim>\<open>Math.round\<close>: the nearest integer, a tie going up.\<close>

definition Math_round :: "rat \<Rightarrow> int" where
  "Math_round x = \<lfloor>x + 1 / 2\<rfloor>"

text \<open>
  An exact integer result as a double: itself up to \<open>2^53\<close>, rounded beyond, and an
  infinity when the rounded magnitude reaches \<open>2^1024\<close>.
\<close>

definition js_of_int :: "int \<Rightarrow> jsnum" where
  "js_of_int n =
     (if \<bar>n\<bar> \<le> 2 ^ 53 then Num n
      else let r = nearest_double \<bar>n\<bar> 1
           in if 2 ^ 1024 \<le> r then (if 0 < n then PosInf else NegInf)
              else Num (sgn n * \<lfloor>r\<rfloor>))"

text \<open>\<^verbatim>\<open>pageNum - 1\<close>\<close>

fun js_minus_one :: "jsnum \<Rightarrow> jsnum" where
  "js_minus_one (Num p) = js_of_int (p - 1)"
| "js_minus_one x = x"

text \<open>An infinity times a finite number: the sign of the product, \<^verbatim>\<open>NaN\<close> for a zero.\<close>

definition signed_inf :: "int \<Rightarrow> jsnum" where
  "signed_inf s = (if s = 0 then NaN else if 0 < s then PosInf else NegInf)"

fun js_times :: "jsnum \<Rightarrow> jsnum \<Rightarrow> jsnum" where
  "js_times NaN y = NaN"
| "js_times x NaN = NaN"
| "js_times (Num a) (Num b) = js_of_int (a * b)"
| "js_times (Num a) PosInf = signed_inf a"
| "js_times (Num a) NegInf = signed_inf (- a)"
| "js_times PosInf (Num b) = signed_inf b"
| "js_times NegInf (Num b) = signed_inf (- b)"
| "js_times PosInf PosInf = PosInf"
| "js_times PosInf NegInf = NegInf"
| "js_times NegInf PosInf = NegInf"
| "js_times NegInf NegInf = PosInf"

text \<open>\<^verbatim>\<open>(pageNum - 1) * limitNum\<close>\<close>

definition js_offset :: "jsnum \<Rightarrow> jsnum \<Rightarrow> jsnum" where
  "js_offset p l = js_times (js_minus_one p) l"

fun js_less :: "jsnum \<Rightarrow> jsnum \<Rightarrow> bool" where
  "js_less (Num a) (Num b) = (a < b)"
| "js_less (Num a) PosInf = True"
| "js_less NegInf (Num b) = True"
| "js_less NegInf PosInf = True"
| "js_less _ _ = False"

fun js_greater_int :: "jsnum \<Rightarrow> int \<Rightarrow> bool" where
  "js_greater_int (Num a) b = (a > b)"
| "js_greater_int PosInf b = True"
| "js_greater_int _ b = False"

text \<open>
  \<^verbatim>\<open>Math.ceil(total / limitNum)\<close> for a count \<open>total \<ge> 0\<close>. For counts below \<open>2^53\<close>
  the double-precision quotient has the ceiling of the exact quotient, which is what is
  written here. A count over an infinity is a zero.
\<close>

fun js_ceil_div :: "nat \<Rightarrow> jsnum \<Rightarrow> jsnum" where
  "js_ceil_div t NaN = NaN"
| "js_ceil_div t (Num l) =
     (if l = 0 then (if t = 0 then NaN else PosInf)
      else Num \<lceil>rat_of_nat t / rat_of_int l\<rceil>)"
| "js_ceil_div t PosInf = Num 0"
| "js_ceil_div t NegInf = Num 0"

text \<open>
  \<^verbatim>\<open>new Date(v)\<close>: a time value in milliseconds since the epoch, or an invalid date, whose
  time value is \<^verbatim>\<open>NaN\<close>.
\<close>

datatype jsdate = Invalid_Date | Time int

subsection \<open>Todo documents\<close>

text \<open>
  A document of the collection \<^verbatim>\<open>todos\<close> together with its id (\<^verbatim>\<open>{ id: doc.id, ...doc.data() }\<close>).
  The field \<open>deadline\<close> is \<open>None\<close> when \<^verbatim>\<open>todo.deadline\<close> is falsy (absent, null or empty) and
  otherwise holds the date that \<^verbatim>\<open>new Date(todo.deadline)\<close> constructs.
\<close>

record todo =
  doc_id :: string
  title :: string
  description :: string
  status :: string
  deadline :: "jsdate option"
  createdAt :: string
  updatedAt :: string

record todo_with_status = todo +
  deadlineStatus :: string

subsection \<open>Deadline status (lines 114 to 134)\<close>

text \<open>\<^verbatim>\<open>Math.ceil((deadline - now) / (1000 * 60 * 60 * 24))\<close>. Time values lie within
  \<open>8.64 * 10^15\<close> of the epoch, so the difference is exact, and so is the ceiling of the
  double-precision quotient; a ceiling in \<open>(-1, 0]\<close> is a zero (\<^verbatim>\<open>-0 === 0\<close>).\<close>

fun daysUntilDeadline :: "jsdate \<Rightarrow> int \<Rightarrow> jsnum" where
  "daysUntilDeadline Invalid_Date now = NaN"
| "daysUntilDeadline (Time d) now = Num \<lceil>rat_of_int (d - now) / (1000 * 60 * 60 * 24)\<rceil>"

definition deadlineStatus_of :: "int \<Rightarrow> jsdate option \<Rightarrow> string" where
  "deadlineStatus_of now dl =
     (case dl of
        None \<Rightarrow> ''none''
      | Some date \<Rightarrow>
          (case daysUntilDeadline date now of
             NaN \<Rightarrow> ''none''
           | Num daysUntil \<Rightarrow>
               if daysUntil < 0 then ''overdue''
               else if daysUntil = 0 then ''due-today''
               else if daysUntil \<le> 3 then ''due-soon''
               else ''none''))"

definition add_deadlineStatus :: "int \<Rightarrow> todo \<Rightarrow> todo_with_status" where
  "add_deadlineStatus now t =
     \<lparr>doc_id = doc_id t, title = title t, description = description t, status = status t,
      deadline = deadline t, createdAt = createdAt t, updatedAt = updatedAt t,
      deadlineStatus = deadlineStatus_of now (deadline t)\<rparr>"

text \<open>
  \<^verbatim>\<open>todos.map(todo => ...)\<close> reads the clock (\<^verbatim>\<open>new Date()\<close>) once for every record that has
  a deadline: \<open>clock i\<close> is the time read for the record at index \<open>i\<close>.
\<close>

definition todosWithDeadlineStatus :: "(nat \<Rightarrow> int) \<Rightarrow> todo list \<Rightarrow> todo_with_status list" where
  "todosWithDeadlineStatus clock ts =
     map (\<lambda>(i, t). add_deadlineStatus (clock i) t) (enumerate 0 ts)"

text \<open>The classifier in the words of the specification (section 4.2).\<close>

definition one_day :: int where
  "one_day = 86400000"

definition classify :: "int option \<Rightarrow> int \<Rightarrow> string" where
  "classify dl now =
     (case dl of
        None \<Rightarrow> ''none''
      | Some d \<Rightarrow>
          (let daysUntil = \<lceil>rat_of_int (d - now) / rat_of_int one_day\<rceil> in
           if daysUntil < 0 then ''overdue''
           else if daysUntil = 0 then ''due-today''
           else if 0 < daysUntil \<and> daysUntil \<le> 3 then ''due-soon''
           else ''none''))"

subsection \<open>The store\<close>

datatype store_error = Invalid_Argument

record firestore =
  todos :: "todo list"
  order_docs :: "string \<Rightarrow> string \<Rightarrow> todo list \<Rightarrow> todo list"
  bad_limit :: "jsnum \<Rightarrow> todo list \<Rightarrow> store_error + todo list"
  refuses_id :: "string \<Rightarrow> bool"

text \<open>
  \<open>todos\<close> is the collection, \<open>order_docs db field dir\<close> is what \<^verbatim>\<open>orderBy(field, dir)\<close> makes of
  the matching documents, \<open>bad_limit db n ds\<close> is what the store answers when a query
  whose documents are \<open>ds\<close> carries a limit \<open>n\<close> that is not a positive integer (\<^verbatim>\<open>NaN\<close>, an
  infinity, zero or a negative number), and \<open>refuses_id db i\<close> says that the client throws
  on \<^verbatim>\<open>doc(i)\<close> or on reading it, as it does for an id that is not a document path.
\<close>

definition unique_ids :: "firestore \<Rightarrow> bool" where
  "unique_ids db = distinct (map doc_id (todos db))"

text \<open>
  \<^verbatim>\<open>orderBy(f, d)\<close> leaves out the documents that lack the field \<open>f\<close>. \<open>orders_all db f\<close>
  says that every document has the field: ordering by it only rearranges.
\<close>

definition orders_all :: "firestore \<Rightarrow> string \<Rightarrow> bool" where
  "orders_all db f = (\<forall>d xs. mset (order_docs db f d xs) = mset xs)"

text \<open>A query as the controller builds it, step by step.\<close>

record fs_query =
  where_status :: "string option"
  order_by :: "(string \<times> string) option"
  limit_to :: "jsnum option"
  start_after :: "todo option"

definition collection :: fs_query where
  "collection = \<lparr>where_status = None, order_by = None, limit_to = None, start_after = None\<rparr>"

definition fs_where :: "string \<Rightarrow> fs_query \<Rightarrow> fs_query" where
  "fs_where s q = q\<lparr>where_status := Some s\<rparr>"

definition fs_orderBy :: "string \<Rightarrow> string \<Rightarrow> fs_query \<Rightarrow> fs_query" where
  "fs_orderBy f d q = q\<lparr>order_by := Some (f, d)\<rparr>"

definition fs_limit :: "jsnum \<Rightarrow> fs_query \<Rightarrow> fs_query" where
  "fs_limit n q = q\<lparr>limit_to := Some n\<rparr>"

definition fs_startAfter :: "todo \<Rightarrow> fs_query \<Rightarrow> fs_query" where
  "fs_startAfter c q = q\<lparr>start_after := Some c\<rparr>"

text \<open>The documents that follow the cursor document in the ordered sequence.\<close>

fun after_cursor :: "string \<Rightarrow> todo list \<Rightarrow> todo list" where
  "after_cursor c [] = []"
| "after_cursor c (t # ts) = (if doc_id t = c then ts else after_cursor c ts)"

definition fs_matching :: "firestore \<Rightarrow> fs_query \<Rightarrow> todo list" where
  "fs_matching db q =
     (let found = (case where_status q of
                     None \<Rightarrow> todos db
                   | Some s \<Rightarrow> filter (\<lambda>t. status t = s) (todos db))
      in case order_by q of
           None \<Rightarrow> found
         | Some (f, d) \<Rightarrow> order_docs db f d found)"

definition fs_count :: "firestore \<Rightarrow> fs_query \<Rightarrow> nat" where
  "fs_count db q = length (fs_matching db q)"

definition fs_get :: "firestore \<Rightarrow> fs_query \<Rightarrow> store_error + todo list" where
  "fs_get db q =
     (let ds = (case start_after q of
                  None \<Rightarrow> fs_matching db q
                | Some c \<Rightarrow> after_cursor (doc_id c) (fs_matching db q))
      in case limit_to q of
           None \<Rightarrow> Inr ds
         | Some (Num n) \<Rightarrow> if 0 < n then Inr (take (nat n) ds) else bad_limit db (Num n) ds
         | Some x \<Rightarrow> bad_limit db x ds)"

subsection \<open>Responses\<close>

text \<open>
  \<open>Json_ok x\<close> is \<^verbatim>\<open>res.json({ success: true, ... })\<close> with status 200; \<open>Json_fail c e\<close> is
  \<^verbatim>\<open>res.status(c).json({ success: false, error: e })\<close>.
\<close>

datatype 'a response = Json_ok 'a | Json_fail nat string

fun http_status :: "'a response \<Rightarrow> nat" where
  "http_status (Json_ok x) = 200"
| "http_status (Json_fail c e) = c"

fun success :: "'a response \<Rightarrow> bool" where
  "success (Json_ok x) = True"
| "success (Json_fail c e) = False"

subsection \<open>The list operation (lines 62 to 156)\<close>

record list_query =
  q_status :: "string option"
  q_sortBy :: "string option"
  q_order :: "string option"
  q_limit :: "jsnum option"
  q_page :: "jsnum option"

text \<open>
  A field of \<open>list_query\<close> is \<open>None\<close> when the parameter is absent from \<^verbatim>\<open>req.query\<close>, and
  the default applies. \<open>q_limit\<close> and \<open>q_page\<close> hold what \<^verbatim>\<open>parseInt\<close> makes of the
  parameter.
\<close>

record pagination =
  page :: jsnum
  limit :: jsnum
  totalCount :: nat
  totalPages :: jsnum
  hasNextPage :: bool
  hasPrevPage :: bool

definition valid_statuses :: "string list" where
  "valid_statuses = [''pending'', ''in-progress'', ''completed'']"

definition pageNum_of :: "list_query \<Rightarrow> jsnum" where
  "pageNum_of q = (case q_page q of None \<Rightarrow> Num 1 | Some p \<Rightarrow> p)"

definition limitNum_of :: "list_query \<Rightarrow> jsnum" where
  "limitNum_of q = (case q_limit q of None \<Rightarrow> Num 20 | Some l \<Rightarrow> l)"

definition sorted_query :: "list_query \<Rightarrow> fs_query" where
  "sorted_query q =
     (let sortBy = (case q_sortBy q of None \<Rightarrow> ''createdAt'' | Some f \<Rightarrow> f);
          order = (case q_order q of None \<Rightarrow> ''desc'' | Some d \<Rightarrow> d);
          query = (case q_status q of
                     None \<Rightarrow> collection
                   | Some s \<Rightarrow> if s \<noteq> [] \<and> s \<in> set valid_statuses
                               then fs_where s collection else collection);
          sortOrder = (if order = ''asc'' then ''asc'' else ''desc'')
      in fs_orderBy sortBy sortOrder query)"

definition paged_query :: "firestore \<Rightarrow> list_query \<Rightarrow> store_error + fs_query" where
  "paged_query db q =
     (let offset = js_offset (pageNum_of q) (limitNum_of q);
          query = fs_limit (limitNum_of q) (sorted_query q)
      in if js_greater_int offset 0
         then (case fs_get db (fs_limit offset query) of
                 Inl e \<Rightarrow> Inl e
               | Inr docs \<Rightarrow>
                   if docs = [] then Inr query else Inr (fs_startAfter (last docs) query))
         else Inr query)"

definition getAllTodos ::
  "(nat \<Rightarrow> int) \<Rightarrow> firestore \<Rightarrow> list_query \<Rightarrow> (todo_with_status list \<times> pagination) response" where
  "getAllTodos clock db q =
     (let pageNum = pageNum_of q;
          limitNum = limitNum_of q;
          total = fs_count db (sorted_query q)
      in case paged_query db q of
           Inl e \<Rightarrow> Json_fail 500 ''Failed to fetch todos''
         | Inr query \<Rightarrow>
             (case fs_get db query of
                Inl e \<Rightarrow> Json_fail 500 ''Failed to fetch todos''
              | Inr ts \<Rightarrow>
                  Json_ok (todosWithDeadlineStatus clock ts,
                    \<lparr>page = pageNum, limit = limitNum, totalCount = total,
                     totalPages = js_ceil_div total limitNum,
                     hasNextPage = js_less pageNum (js_ceil_div total limitNum),
                     hasPrevPage = js_greater_int pageNum 1\<rparr>)))"

subsection \<open>The statistics operation (lines 275 to 321)\<close>

record counters =
  total_todos :: nat
  pending :: nat
  inProgress :: nat
  completed :: nat
  overdue :: nat

record stats = counters +
  completionRate :: int

text \<open>\<^verbatim>\<open>todo.deadline && new Date(todo.deadline) < now && todo.status !== 'completed'\<close>\<close>

definition counts_as_overdue :: "int \<Rightarrow> todo \<Rightarrow> bool" where
  "counts_as_overdue now t =
     ((case deadline t of
         None \<Rightarrow> False
       | Some Invalid_Date \<Rightarrow> False
       | Some (Time d) \<Rightarrow> d < now)
      \<and> status t \<noteq> ''completed'')"

text \<open>The body of \<^verbatim>\<open>snapshot.forEach\<close>.\<close>

definition count_todo :: "int \<Rightarrow> todo \<Rightarrow> counters \<Rightarrow> counters" where
  "count_todo now t c =
     (let c1 = c\<lparr>total_todos := total_todos c + 1\<rparr>;
          c2 = (if status t = ''pending'' then c1\<lparr>pending := pending c1 + 1\<rparr> else c1);
          c3 = (if status t = ''in-progress'' then c2\<lparr>inProgress := inProgress c2 + 1\<rparr> else c2);
          c4 = (if status t = ''completed'' then c3\<lparr>completed := completed c3 + 1\<rparr> else c3)
      in if counts_as_overdue now t then c4\<lparr>overdue := overdue c4 + 1\<rparr> else c4)"

definition no_counts :: counters where
  "no_counts = \<lparr>total_todos = 0, pending = 0, inProgress = 0, completed = 0, overdue = 0\<rparr>"

definition count_all :: "int \<Rightarrow> todo list \<Rightarrow> counters" where
  "count_all now ts = fold (count_todo now) ts no_counts"

text \<open>\<^verbatim>\<open>total > 0 ? Math.round((completed / total) * 100) : 0\<close>\<close>

definition completionRate_of :: "nat \<Rightarrow> nat \<Rightarrow> int" where
  "completionRate_of done_n total_n =
     (if total_n > 0
      then Math_round (to_double (to_double (of_nat done_n / of_nat total_n) * 100))
      else 0)"

definition getTodoStats :: "int \<Rightarrow> firestore \<Rightarrow> stats response" where
  "getTodoStats now db =
     (let c = count_all now (todos db)
      in Json_ok \<lparr>total_todos = total_todos c, pending = pending c, inProgress = inProgress c,
                  completed = completed c, overdue = overdue c,
                  completionRate = completionRate_of (completed c) (total_todos c)\<rparr>)"

subsection \<open>The delete operation (lines 244 to 272)\<close>

definition doc_exists :: "firestore \<Rightarrow> string \<Rightarrow> bool" where
  "doc_exists db i = (find (\<lambda>t. doc_id t = i) (todos db) \<noteq> None)"

definition fs_delete :: "firestore \<Rightarrow> string \<Rightarrow> firestore" where
  "fs_delete db i = db\<lparr>todos := filter (\<lambda>t. doc_id t \<noteq> i) (todos db)\<rparr>"

definition deleteTodo :: "firestore \<Rightarrow> string \<Rightarrow> string response \<times> firestore" where
  "deleteTodo db i =
     (if refuses_id db i then (Json_fail 500 ''Failed to delete todo'', db)
      else if \<not> doc_exists db i then (Json_fail 404 ''Todo not found'', db)
      else (Json_ok ''Todo deleted successfully'', fs_delete db i))"

subsection \<open>The specification's side\<close>

text \<open>
  Section 4.5: a record counts as overdue when its deadline is in the past and its status
  is not \<^verbatim>\<open>completed\<close>.
\<close>

definition spec_overdue :: "int \<Rightarrow> todo \<Rightarrow> bool" where
  "spec_overdue now t =
     (case deadline t of Some (Time d) \<Rightarrow> d < now \<and> status t \<noteq> ''completed'' | _ \<Rightarrow> False)"

text \<open>The number of records with a given status.\<close>

definition with_status :: "string \<Rightarrow> todo list \<Rightarrow> nat" where
  "with_status s ts = length (filter (\<lambda>t. status t = s) ts)"

text \<open>
  Section 4.3, the query plan: an optional equality predicate on the status (an
  unrecognised value is no filter), and the ordering key, \<^verbatim>\<open>createdAt\<close> and \<^verbatim>\<open>desc\<close> unless
  the request says otherwise.
\<close>

definition sort_field :: "list_query \<Rightarrow> string" where
  "sort_field q = (case q_sortBy q of None \<Rightarrow> ''createdAt'' | Some f \<Rightarrow> f)"

definition sort_dir :: "list_query \<Rightarrow> string" where
  "sort_dir q = (if q_order q = Some ''asc'' then ''asc'' else ''desc'')"

definition matches :: "list_query \<Rightarrow> todo \<Rightarrow> bool" where
  "matches q t =
     (case q_status q of
        None \<Rightarrow> True
      | Some s \<Rightarrow> if s \<in> set valid_statuses then status t = s else True)"

definition matching :: "firestore \<Rightarrow> list_query \<Rightarrow> todo list" where
  "matching db q = filter (matches q) (todos db)"

text \<open>The matching records in the requested order, as the store orders them.\<close>

definition requested_order :: "firestore \<Rightarrow> list_query \<Rightarrow> todo list" where
  "requested_order db q = order_docs db (sort_field q) (sort_dir q) (matching db q)"

subsection \<open>Example data\<close>

definition mk_todo :: "string \<Rightarrow> string \<Rightarrow> jsdate option \<Rightarrow> todo" where
  "mk_todo i s dl =
     \<lparr>doc_id = i, title = ''task'', description = [], status = s, deadline = dl,
      createdAt = ''2024-01-01T00:00:00.000Z'', updatedAt = ''2024-01-01T00:00:00.000Z''\<rparr>"

text \<open>
  The segments of a document path, and the ids that are no document of the collection:
  the empty id, an id with an empty segment inside, and an id with an even number of
  segments (a collection path).
\<close>

fun path_segments :: "string \<Rightarrow> string \<Rightarrow> string list" where
  "path_segments acc [] = (if acc = [] then [] else [rev acc])"
| "path_segments acc (c # cs) =
     (if c = CHR ''/'' then (if acc = [] then [] else [rev acc]) @ path_segments [] cs
      else path_segments (c # acc) cs)"

fun double_slash :: "string \<Rightarrow> bool" where
  "double_slash (a # b # cs) = ((a = CHR ''/'' \<and> b = CHR ''/'') \<or> double_slash (b # cs))"
| "double_slash cs = False"

definition not_a_document_id :: "string \<Rightarrow> bool" where
  "not_a_document_id i = (i = [] \<or> double_slash i \<or> even (length (path_segments [] i)))"

text \<open>
  A store in which every document has every sort field: it keeps insertion order, reversed
  for \<^verbatim>\<open>desc\<close>. It refuses a bad limit and an id that is no document path.
\<close>

definition plain_store :: "todo list \<Rightarrow> firestore" where
  "plain_store ts =
     \<lparr>todos = ts,
      order_docs = (\<lambda>f d xs. if d = ''asc'' then xs else rev xs),
      bad_limit = (\<lambda>n ds. Inl Invalid_Argument),
      refuses_id = not_a_document_id\<rparr>"

text \<open>The same store when no document has the field \<^verbatim>\<open>priority\<close>: ordering by it leaves none.\<close>

definition store_without_priority :: "todo list \<Rightarrow> firestore" where
  "store_without_priority ts =
     (plain_store ts)\<lparr>order_docs :=
        (\<lambda>f d xs. if f = ''priority'' then [] else if d = ''asc'' then xs else rev xs)\<rparr>"

text \<open>Two completed records, a pending one whose deadline has passed at time 1000, and one
  in progress.\<close>

definition example_db :: firestore where
  "example_db =
     plain_store
       [mk_todo ''a1'' ''completed'' (Some (Time 500)),
        mk_todo ''b2'' ''completed'' None,
        mk_todo ''c3'' ''pending'' (Some (Time 999)),
        mk_todo ''d4'' ''in-progress'' None]"

text \<open>\<open>n\<close> records with distinct ids: the first \<open>k\<close> completed, the others pending.\<close>

definition sample_todos :: "nat \<Rightarrow> nat \<Rightarrow> todo list" where
  "sample_todos n k =
     map (\<lambda>i. mk_todo (replicate (Suc i) (CHR ''a''))
                (if i < k then ''completed'' else ''pending'') None) [0..<n]"

text \<open>A list request with the default sort, and clocks for the examples.\<close>

definition list_request :: "string option \<Rightarrow> jsnum \<Rightarrow> jsnum \<Rightarrow> list_query" where
  "list_request s p l =
     \<lparr>q_status = s, q_sortBy = None, q_order = None, q_limit = Some l, q_page = Some p\<rparr>"

definition request_by_priority :: list_query where
  "request_by_priority =
     \<lparr>q_status = None, q_sortBy = Some ''priority'', q_order = None,
      q_limit = Some (Num 10), q_page = Some (Num 1)\<rparr>"

definition at_time :: "int \<Rightarrow> nat \<Rightarrow> int" where
  "at_time now i = now"

definition ticking :: "int \<Rightarrow> nat \<Rightarrow> int" where
  "ticking now i = now + int i"

section \<open>Verification\<close>

subsection \<open>Deleting\<close>

lemma doc_exists_iff: "doc_exists db i \<longleftrightarrow> i \<in> doc_id ` set (todos db)"
  by (auto simp: doc_exists_def find_None_iff)

lemma not_a_document_id_slash: "not_a_document_id ''a/b''"
  by (simp add: not_a_document_id_def)

lemma not_a_document_id_plain: "\<not> not_a_document_id ''zz''"
  by (simp add: not_a_document_id_def)

text \<open>
  Claim C9, as stated, fails: the id \<^verbatim>\<open>a/b\<close> (from \<^verbatim>\<open>DELETE /api/todos/a%2Fb\<close>) resolves to no
  record, the client throws on it inside the \<^verbatim>\<open>try\<close>, and the answer is HTTP 500, not 404.
\<close>

theorem deleteTodo_refused_id:
  "''a/b'' \<notin> doc_id ` set (todos example_db)
   \<and> deleteTodo example_db ''a/b'' = (Json_fail 500 ''Failed to delete todo'', example_db)"
  by (simp add: deleteTodo_def example_db_def plain_store_def mk_todo_def
      not_a_document_id_slash)

text \<open>
  Claim C9, amended. Deleting an id that the client accepts and that resolves to no record
  answers HTTP 404 with \<^verbatim>\<open>success: false\<close> and the error \<^verbatim>\<open>Todo not found\<close>; it does not
  report success, and the store is left as it was. An id that the client refuses is
  answered with HTTP 500 and \<^verbatim>\<open>success: false\<close>, the store again left as it was.
\<close>

theorem deleteTodo_unknown_id:
  "(\<not> refuses_id db i \<and> i \<notin> doc_id ` set (todos db)
      \<longrightarrow> deleteTodo db i = (Json_fail 404 ''Todo not found'', db)
          \<and> http_status (fst (deleteTodo db i)) = 404
          \<and> \<not> success (fst (deleteTodo db i))
          \<and> snd (deleteTodo db i) = db)
   \<and> (refuses_id db i
      \<longrightarrow> deleteTodo db i = (Json_fail 500 ''Failed to delete todo'', db)
          \<and> \<not> success (fst (deleteTodo db i))
          \<and> snd (deleteTodo db i) = db)"
  by (simp add: deleteTodo_def doc_exists_iff)

theorem deleteTodo_unknown_id_witness:
  "\<not> refuses_id example_db ''zz''
   \<and> ''zz'' \<notin> doc_id ` set (todos example_db)
   \<and> deleteTodo example_db ''zz'' = (Json_fail 404 ''Todo not found'', example_db)
   \<and> refuses_id example_db []
   \<and> deleteTodo example_db [] = (Json_fail 500 ''Failed to delete todo'', example_db)"
proof -
  have r: "\<not> refuses_id example_db ''zz''"
    by (simp add: example_db_def plain_store_def not_a_document_id_plain)
  have h: "''zz'' \<notin> doc_id ` set (todos example_db)"
    by (simp add: example_db_def plain_store_def mk_todo_def)
  have e: "refuses_id example_db []"
    by (simp add: example_db_def plain_store_def not_a_document_id_def)
  from deleteTodo_unknown_id [of example_db "''zz''"] r h
  have "deleteTodo example_db ''zz'' = (Json_fail 404 ''Todo not found'', example_db)"
    by blast
  moreover from deleteTodo_unknown_id [of example_db "[]"] e
  have "deleteTodo example_db [] = (Json_fail 500 ''Failed to delete todo'', example_db)"
    by blast
  ultimately show ?thesis using r h e by blast
qed

subsection \<open>Statistics\<close>

lemma counts_as_overdue_spec: "counts_as_overdue now t = spec_overdue now t"
  by (auto simp: counts_as_overdue_def spec_overdue_def split: option.splits jsdate.splits)

lemma count_todo_eq:
  "count_todo now t c =
     \<lparr>total_todos = total_todos c + 1,
      pending = pending c + (if status t = ''pending'' then 1 else 0),
      inProgress = inProgress c + (if status t = ''in-progress'' then 1 else 0),
      completed = completed c + (if status t = ''completed'' then 1 else 0),
      overdue = overdue c + (if spec_overdue now t then 1 else 0)\<rparr>"
  by (simp add: count_todo_def Let_def counts_as_overdue_spec)

lemma fold_count_todo:
  "fold (count_todo now) ts c =
     \<lparr>total_todos = total_todos c + length ts,
      pending = pending c + with_status ''pending'' ts,
      inProgress = inProgress c + with_status ''in-progress'' ts,
      completed = completed c + with_status ''completed'' ts,
      overdue = overdue c + length (filter (spec_overdue now) ts)\<rparr>"
proof (induction ts arbitrary: c)
  case Nil
  show ?case by (simp add: with_status_def)
next
  case (Cons t ts)
  show ?case
    unfolding fold_simps(2) Cons.IH
    by (simp add: count_todo_eq with_status_def)
qed

lemma count_all_eq:
  "count_all now ts =
     \<lparr>total_todos = length ts,
      pending = with_status ''pending'' ts,
      inProgress = with_status ''in-progress'' ts,
      completed = with_status ''completed'' ts,
      overdue = length (filter (spec_overdue now) ts)\<rparr>"
  by (simp add: count_all_def fold_count_todo no_counts_def)

lemma getTodoStats_eq:
  "getTodoStats now db =
     Json_ok \<lparr>total_todos = length (todos db),
              pending = with_status ''pending'' (todos db),
              inProgress = with_status ''in-progress'' (todos db),
              completed = with_status ''completed'' (todos db),
              overdue = length (filter (spec_overdue now) (todos db)),
              completionRate =
                completionRate_of (with_status ''completed'' (todos db)) (length (todos db))\<rparr>"
  by (simp add: getTodoStats_def count_all_eq Let_def)

lemma example_db_counts:
  "length (todos example_db) = 4"
  "with_status ''completed'' (todos example_db) = 2"
  "with_status ''pending'' (todos example_db) = 1"
  "with_status ''in-progress'' (todos example_db) = 1"
  "length (filter (spec_overdue 1000) (todos example_db)) = 1"
  by (simp_all add: example_db_def plain_store_def mk_todo_def with_status_def
      spec_overdue_def)

lemma rate_2_4: "completionRate_of 2 4 = 50"
  by code_simp

text \<open>
  Claim C3. The statistics report the number of records as total, the number of records of
  each status as pending, inProgress and completed, and as overdue the number of records
  whose deadline lies strictly before now and whose status is not completed. For two
  completed records, a pending one with a passed deadline and one in progress:
  total 4, completed 2, overdue 1.
\<close>

theorem getTodoStats_counts:
  "getTodoStats now db =
     Json_ok \<lparr>total_todos = length (todos db),
              pending = with_status ''pending'' (todos db),
              inProgress = with_status ''in-progress'' (todos db),
              completed = with_status ''completed'' (todos db),
              overdue = length (filter (spec_overdue now) (todos db)),
              completionRate =
                completionRate_of (with_status ''completed'' (todos db)) (length (todos db))\<rparr>
   \<and> (\<forall>a b p w d.
         todos db = [a, b, p, w] \<and> status a = ''completed'' \<and> status b = ''completed''
         \<and> status p = ''pending'' \<and> deadline p = Some (Time d) \<and> d < now
         \<and> status w = ''in-progress'' \<and> deadline w = None
         \<longrightarrow> (\<exists>st. getTodoStats now db = Json_ok st
                \<and> total_todos st = 4 \<and> completed st = 2 \<and> overdue st = 1))"
proof (intro conjI allI impI)
  show g: "getTodoStats now db =
     Json_ok \<lparr>total_todos = length (todos db),
              pending = with_status ''pending'' (todos db),
              inProgress = with_status ''in-progress'' (todos db),
              completed = with_status ''completed'' (todos db),
              overdue = length (filter (spec_overdue now) (todos db)),
              completionRate =
                completionRate_of (with_status ''completed'' (todos db)) (length (todos db))\<rparr>"
    by (rule getTodoStats_eq)
  fix a b p w d
  assume ex: "todos db = [a, b, p, w] \<and> status a = ''completed'' \<and> status b = ''completed''
         \<and> status p = ''pending'' \<and> deadline p = Some (Time d) \<and> d < now
         \<and> status w = ''in-progress'' \<and> deadline w = None"
  then have "length (todos db) = 4" "with_status ''completed'' (todos db) = 2"
    "length (filter (spec_overdue now) (todos db)) = 1"
    by (auto simp: with_status_def spec_overdue_def split: option.splits jsdate.splits)
  with g show "\<exists>st. getTodoStats now db = Json_ok st
                \<and> total_todos st = 4 \<and> completed st = 2 \<and> overdue st = 1"
    by simp
qed

theorem getTodoStats_counts_witness:
  "getTodoStats 1000 example_db =
     Json_ok \<lparr>total_todos = 4, pending = 1, inProgress = 1, completed = 2, overdue = 1,
              completionRate = 50\<rparr>"
  using getTodoStats_counts [of 1000 example_db]
  by (simp add: example_db_counts rate_2_4)

lemma length_by_status:
  "with_status ''pending'' ts + with_status ''in-progress'' ts + with_status ''completed'' ts
     + length (filter (\<lambda>t. status t \<notin> set valid_statuses) ts) = length ts"
  by (induction ts) (auto simp: with_status_def valid_statuses_def)

lemma no_outsiders:
  "(\<forall>t\<in>set ts. status t \<in> set valid_statuses)
   \<Longrightarrow> filter (\<lambda>t. status t \<notin> set valid_statuses) ts = []"
  by (induction ts) auto

text \<open>
  Claim C10. The three status counters and the number of records whose status is outside
  the enumeration add up to total; so the three counters add up to total when every status
  is in the enumeration, and a record with another status raises total (the denominator of
  the completion rate) and no status counter.
\<close>

theorem getTodoStats_status_buckets:
  "\<exists>st. getTodoStats now db = Json_ok st
     \<and> pending st + inProgress st + completed st
         + length (filter (\<lambda>t. status t \<notin> set valid_statuses) (todos db)) = total_todos st
     \<and> ((\<forall>t\<in>set (todos db). status t \<in> set valid_statuses)
          \<longrightarrow> pending st + inProgress st + completed st = total_todos st)
     \<and> completionRate st = completionRate_of (completed st) (total_todos st)
     \<and> (\<forall>t. status t \<notin> set valid_statuses \<longrightarrow>
           (\<exists>st'. getTodoStats now (db\<lparr>todos := todos db @ [t]\<rparr>) = Json_ok st'
              \<and> total_todos st' = total_todos st + 1 \<and> pending st' = pending st
              \<and> inProgress st' = inProgress st \<and> completed st' = completed st
              \<and> completionRate st' = completionRate_of (completed st) (total_todos st + 1)))"
proof -
  let ?st = "\<lparr>total_todos = length (todos db),
              pending = with_status ''pending'' (todos db),
              inProgress = with_status ''in-progress'' (todos db),
              completed = with_status ''completed'' (todos db),
              overdue = length (filter (spec_overdue now) (todos db)),
              completionRate =
                completionRate_of (with_status ''completed'' (todos db)) (length (todos db))\<rparr>"
  note g = getTodoStats_eq
  have sum: "pending ?st + inProgress ?st + completed ?st
         + length (filter (\<lambda>t. status t \<notin> set valid_statuses) (todos db)) = total_todos ?st"
    using length_by_status [of "todos db"] by simp
  have all: "(\<forall>t\<in>set (todos db). status t \<in> set valid_statuses)
          \<longrightarrow> pending ?st + inProgress ?st + completed ?st = total_todos ?st"
    using length_by_status [of "todos db"] no_outsiders [of "todos db"] by auto
  have ext: "\<forall>t. status t \<notin> set valid_statuses \<longrightarrow>
           (\<exists>st'. getTodoStats now (db\<lparr>todos := todos db @ [t]\<rparr>) = Json_ok st'
              \<and> total_todos st' = total_todos ?st + 1 \<and> pending st' = pending ?st
              \<and> inProgress st' = inProgress ?st \<and> completed st' = completed ?st
              \<and> completionRate st' = completionRate_of (completed ?st) (total_todos ?st + 1))"
    by (auto simp: g with_status_def valid_statuses_def)
  from g [of now db] sum all ext show ?thesis
    by (intro exI [of _ ?st]) simp
qed

theorem getTodoStats_status_buckets_witness:
  "list_all (\<lambda>t. status t \<in> set valid_statuses) (todos example_db)
   \<and> status (mk_todo ''e5'' ''archived'' None) \<notin> set valid_statuses
   \<and> (\<exists>st st'. getTodoStats 1000 example_db = Json_ok st
         \<and> pending st + inProgress st + completed st = total_todos st
         \<and> total_todos st = 4
         \<and> getTodoStats 1000 (example_db\<lparr>todos := todos example_db
               @ [mk_todo ''e5'' ''archived'' None]\<rparr>) = Json_ok st'
         \<and> total_todos st' = 5
         \<and> pending st' + inProgress st' + completed st' = 4)"
proof -
  have valid: "\<forall>t\<in>set (todos example_db). status t \<in> set valid_statuses"
    by (simp add: example_db_def plain_store_def mk_todo_def valid_statuses_def)
  have other: "status (mk_todo ''e5'' ''archived'' None) \<notin> set valid_statuses"
    by (simp add: mk_todo_def valid_statuses_def)
  from getTodoStats_status_buckets [of 1000 example_db] obtain st where
    st: "getTodoStats 1000 example_db = Json_ok st"
    and all: "(\<forall>t\<in>set (todos example_db). status t \<in> set valid_statuses)
          \<longrightarrow> pending st + inProgress st + completed st = total_todos st"
    and ext: "\<forall>t. status t \<notin> set valid_statuses \<longrightarrow>
           (\<exists>st'. getTodoStats 1000 (example_db\<lparr>todos := todos example_db @ [t]\<rparr>) = Json_ok st'
              \<and> total_todos st' = total_todos st + 1 \<and> pending st' = pending st
              \<and> inProgress st' = inProgress st \<and> completed st' = completed st
              \<and> completionRate st' = completionRate_of (completed st) (total_todos st + 1))"
    by blast
  from st have four: "total_todos st = 4"
    by (auto simp: getTodoStats_eq example_db_counts)
  from all valid have sum: "pending st + inProgress st + completed st = total_todos st"
    by blast
  from ext other obtain st' where
    st': "getTodoStats 1000 (example_db\<lparr>todos := todos example_db
               @ [mk_todo ''e5'' ''archived'' None]\<rparr>) = Json_ok st'"
    and more: "total_todos st' = total_todos st + 1" "pending st' = pending st"
      "inProgress st' = inProgress st" "completed st' = completed st"
    by blast
  from valid other st sum four st' more show ?thesis
    by (intro conjI exI [of _ st] exI [of _ st']) (simp_all add: list_all_iff)
qed

subsection \<open>Rounding to a double\<close>

text \<open>
  The exponent brackets the quotient, and the rounded value lies within half a unit in the
  last place of it.
\<close>

lemma round_half_even_nearest: "\<bar>of_int (round_half_even x) - x\<bar> \<le> 1 / 2"
  by (auto simp: round_half_even_def Let_def abs_if) (use floor_correct [of x] in linarith)+

lemma binary_exponent_bounds:
  assumes "0 < a" and "0 < b"
  shows "2 powi (binary_exponent a b) \<le> rat_of_int a / rat_of_int b"
    and "rat_of_int a / rat_of_int b < 2 powi (binary_exponent a b + 1)"
proof -
  have goal: "2 powi (binary_exponent a b) \<le> rat_of_int a / rat_of_int b
      \<and> rat_of_int a / rat_of_int b < 2 powi (binary_exponent a b + 1)"
  proof (cases "b \<le> a")
    case True
    define m where "m = a div b"
    define k where "k = nat (bitlen m - 1)"
    from True assms have m: "0 < m" by (simp add: m_def pos_imp_zdiv_pos_iff)
    then have bl: "1 \<le> bitlen m" by (simp add: bitlen_alt_def)
    from bitlen_bounds [OF m] bl have lo: "2 ^ k \<le> m" and hi: "m < 2 ^ Suc k"
      by (simp_all add: k_def Suc_nat_eq_nat_zadd1)
    have e: "binary_exponent a b = int k"
      using True bl by (simp add: binary_exponent_def m_def k_def)
    have eq: "a = b * m + a mod b" by (simp add: m_def)
    have md: "0 \<le> a mod b" "a mod b < b" using assms(2) by simp_all
    from eq md have "b * m \<le> a" "a < b * m + b" by linarith+
    then have "m * b \<le> a" and up: "a < (m + 1) * b" by (simp_all add: algebra_simps)
    then have "rat_of_int (m * b) \<le> rat_of_int a" by (simp only: of_int_le_iff)
    then have 1: "rat_of_int m \<le> rat_of_int a / rat_of_int b"
      using assms(2) by (simp add: pos_le_divide_eq)
    from up have "rat_of_int a < rat_of_int ((m + 1) * b)" by (simp only: of_int_less_iff)
    then have 2: "rat_of_int a / rat_of_int b < rat_of_int (m + 1)"
      using assms(2) by (simp add: pos_divide_less_eq)
    from lo have "rat_of_int (2 ^ k) \<le> rat_of_int m" by (simp only: of_int_le_iff)
    then have "(2::rat) ^ k \<le> rat_of_int m" by (simp only: of_int_power of_int_numeral)
    from this 1 have A: "(2::rat) ^ k \<le> rat_of_int a / rat_of_int b" by (rule order_trans)
    from hi have "m + 1 \<le> 2 ^ Suc k" by simp
    then have "rat_of_int (m + 1) \<le> rat_of_int (2 ^ Suc k)" by (simp only: of_int_le_iff)
    then have "rat_of_int (m + 1) \<le> (2::rat) ^ Suc k" by (simp only: of_int_power of_int_numeral)
    with 2 have B: "rat_of_int a / rat_of_int b < (2::rat) ^ Suc k" by (rule less_le_trans)
    from A B show ?thesis
      by (simp add: e power_int_add)
  next
    case False
    define m where "m = (b - 1) div a"
    define k where "k = nat (bitlen m)"
    from False assms have "a \<le> b - 1" by simp
    with assms have m: "0 < m" by (simp add: m_def pos_imp_zdiv_pos_iff)
    then have bl: "1 \<le> bitlen m" by (simp add: bitlen_alt_def)
    then have k: "0 < k" by (simp add: k_def)
    from bitlen_bounds [OF m] bl have lo: "2 ^ (k - 1) \<le> m" and hi: "m < 2 ^ k"
      by (simp_all add: k_def nat_diff_distrib)
    have e: "binary_exponent a b = - int k"
      using False bl by (simp add: binary_exponent_def m_def k_def)
    have eq: "b - 1 = a * m + (b - 1) mod a" by (simp add: m_def)
    have md: "0 \<le> (b - 1) mod a" "(b - 1) mod a < a" using assms(1) by simp_all
    from eq md have "a * m \<le> b - 1" "b - 1 < a * m + a" by linarith+
    then have ma: "m * a \<le> b - 1" and "b - 1 < (m + 1) * a" by (simp_all add: algebra_simps)
    moreover from hi have "m + 1 \<le> 2 ^ k" by simp
    then have "(m + 1) * a \<le> 2 ^ k * a" using assms(1) by (simp add: mult_right_mono)
    ultimately have "b \<le> 2 ^ k * a" by linarith
    then have "rat_of_int b \<le> rat_of_int (2 ^ k * a)" by (simp only: of_int_le_iff)
    then have "rat_of_int b \<le> 2 ^ k * rat_of_int a" by simp
    then have A: "1 / 2 ^ k \<le> rat_of_int a / rat_of_int b"
      using assms(2) by (simp add: pos_le_divide_eq pos_divide_le_eq mult.commute)
    from lo have "2 ^ (k - 1) * a \<le> m * a" using assms(1) by (simp add: mult_right_mono)
    with ma have "2 ^ (k - 1) * a < b" by linarith
    then have "rat_of_int (2 ^ (k - 1) * a) < rat_of_int b" by (simp only: of_int_less_iff)
    then have "2 ^ (k - 1) * rat_of_int a < rat_of_int b" by simp
    then have B: "rat_of_int a / rat_of_int b < 1 / 2 ^ (k - 1)"
      using assms(2) by (simp add: pos_less_divide_eq pos_divide_less_eq mult.commute)
    have p1: "(2::rat) powi (- int k) = 1 / 2 ^ k"
      by (simp add: power_int_minus field_simps)
    have km: "- int k + 1 = - int (k - 1)" using k by simp
    have p2: "(2::rat) powi (- int k + 1) = 1 / 2 ^ (k - 1)"
      unfolding km by (simp add: power_int_minus field_simps)
    from A B show ?thesis by (simp only: e p1 p2)
  qed
  from goal show "2 powi (binary_exponent a b) \<le> rat_of_int a / rat_of_int b"
    and "rat_of_int a / rat_of_int b < 2 powi (binary_exponent a b + 1)"
    by simp_all
qed

lemma nearest_double_error:
  assumes "0 < a" and "0 < b"
  shows "\<bar>nearest_double a b - rat_of_int a / rat_of_int b\<bar>
           \<le> 2 powi (binary_exponent a b - 53)"
proof -
  define e where "e = binary_exponent a b"
  define x where "x = rat_of_int a / rat_of_int b"
  define s :: rat where "s = 2 powi (52 - e)"
  define u :: rat where "u = 2 powi (e - 52)"
  define m where "m = round_half_even (x * s)"
  have su: "s * u = 1"
    by (simp add: s_def u_def flip: power_int_add)
  have u0: "0 < u" by (simp add: u_def)
  have nd: "nearest_double a b = rat_of_int m * u"
    using assms by (simp add: nearest_double_def Let_def m_def x_def s_def u_def e_def)
  have "rat_of_int m * u - x = (rat_of_int m - x * s) * u"
    using su by (simp add: algebra_simps)
  then have "\<bar>rat_of_int m * u - x\<bar> = \<bar>rat_of_int m - x * s\<bar> * u"
    using u0 by (simp add: abs_mult)
  also have "\<dots> \<le> 1 / 2 * u"
    using round_half_even_nearest [of "x * s"] u0 by (simp add: m_def mult_right_mono)
  also have "1 / 2 * u = 2 powi (e - 53)"
  proof -
    have "(2::rat) powi (e - 53 + 1) = 2 powi (e - 53) * 2"
      by (rule power_int_add_1) simp
    moreover have "e - 53 + 1 = e - 52" by simp
    ultimately have "u = 2 powi (e - 53) * 2"
      by (simp only: u_def)
    then show ?thesis by simp
  qed
  finally show ?thesis by (simp add: nd x_def e_def)
qed

subsection \<open>The completion rate\<close>

lemma sample_todos_split:
  assumes "k \<le> n"
  shows "sample_todos n k =
     map (\<lambda>i. mk_todo (replicate (Suc i) (CHR ''a'')) ''completed'' None) [0..<k]
     @ map (\<lambda>i. mk_todo (replicate (Suc i) (CHR ''a'')) ''pending'' None) [k..<n]"
proof -
  from assms have "[0..<n] = [0..<k] @ [k..<n]"
    by (metis le0 upt_add_eq_append le_add_diff_inverse)
  then show ?thesis by (simp add: sample_todos_def cong: map_cong)
qed

lemma sample_todos_counts:
  assumes "k \<le> n"
  shows "length (sample_todos n k) = n"
    and "with_status ''completed'' (sample_todos n k) = k"
    and "with_status ''pending'' (sample_todos n k) = n - k"
    and "with_status ''in-progress'' (sample_todos n k) = 0"
    and "length (filter (spec_overdue now) (sample_todos n k)) = 0"
  unfolding sample_todos_split [OF assms] using assms
  by (simp_all add: with_status_def filter_map o_def mk_todo_def spec_overdue_def)

lemma rate_23_40: "completionRate_of 23 40 = 57"
  by code_simp

lemma exact_23_40: "Math_round (of_nat 23 / of_nat 40 * 100) = 58"
  by (simp add: Math_round_def)

lemma completionRate_of_none [simp]: "completionRate_of c 0 = 0"
  by (simp add: completionRate_of_def)

text \<open>
  Claim C4. The completion rate is 0 for the empty collection, without a division. For a
  collection of 40 records with 23 completed the operation reports 57: the quotient
  \<^verbatim>\<open>23 / 40\<close> is the double just below 0.575, its product with 100 is the double just below
  57.5, and \<^verbatim>\<open>Math.round\<close> takes it down, where the exact value 57.5 rounds to 58.
\<close>

theorem getTodoStats_rate_23_of_40:
  "getTodoStats now (plain_store (sample_todos 40 23)) =
     Json_ok \<lparr>total_todos = 40, pending = 17, inProgress = 0, completed = 23, overdue = 0,
              completionRate = 57\<rparr>
   \<and> Math_round (of_nat 23 / of_nat 40 * 100) = 58
   \<and> getTodoStats now (plain_store []) =
       Json_ok \<lparr>total_todos = 0, pending = 0, inProgress = 0, completed = 0, overdue = 0,
                completionRate = 0\<rparr>"
proof (intro conjI)
  have "(23::nat) \<le> 40" by simp
  note c = sample_todos_counts [OF this]
  show "getTodoStats now (plain_store (sample_todos 40 23)) =
     Json_ok \<lparr>total_todos = 40, pending = 17, inProgress = 0, completed = 23, overdue = 0,
              completionRate = 57\<rparr>"
    by (simp add: getTodoStats_eq plain_store_def c rate_23_40)
  show "Math_round (of_nat 23 / of_nat 40 * 100) = 58"
    by (rule exact_23_40)
  show "getTodoStats now (plain_store []) =
       Json_ok \<lparr>total_todos = 0, pending = 0, inProgress = 0, completed = 0, overdue = 0,
                completionRate = 0\<rparr>"
    by (simp add: getTodoStats_eq plain_store_def with_status_def)
qed

subsection \<open>The day count\<close>

lemma daysUntilDeadline_div:
  "daysUntilDeadline (Time d) now = Num (- ((now - d) div 86400000))"
proof -
  have "\<lceil>rat_of_int (d - now) / rat_of_int 86400000\<rceil> = - (- (d - now) div 86400000)"
    by (rule ceiling_divide_eq_div)
  then show ?thesis by simp
qed

lemma ceiling_days:
  "\<lceil>rat_of_int (d - now) / rat_of_int one_day\<rceil> = - ((now - d) div 86400000)"
proof -
  have "\<lceil>rat_of_int (d - now) / rat_of_int 86400000\<rceil> = - (- (d - now) div 86400000)"
    by (rule ceiling_divide_eq_div)
  then show ?thesis by (simp add: one_day_def)
qed

lemma classify_div:
  "classify (Some d) now =
     (let daysUntil = - ((now - d) div 86400000) in
      if daysUntil < 0 then ''overdue''
      else if daysUntil = 0 then ''due-today''
      else if daysUntil \<le> 3 then ''due-soon''
      else ''none'')"
  unfolding classify_def option.case ceiling_days Let_def by auto

lemma deadlineStatus_of_None: "deadlineStatus_of now None = classify None now"
  by (simp add: deadlineStatus_of_def classify_def)

lemma deadlineStatus_of_Time: "deadlineStatus_of now (Some (Time d)) = classify (Some d) now"
  unfolding classify_div by (simp add: deadlineStatus_of_def daysUntilDeadline_div Let_def
      del: daysUntilDeadline.simps(2))

lemma deadlineStatus_of_Invalid: "deadlineStatus_of now (Some Invalid_Date) = ''none''"
  by (simp add: deadlineStatus_of_def)

text \<open>
  In milliseconds: \<^verbatim>\<open>overdue\<close> starts a full day after the deadline, \<^verbatim>\<open>due-today\<close> covers the
  day after the deadline, and \<^verbatim>\<open>due-soon\<close> the three days before it.
\<close>

lemma classify_thresholds:
  "classify (Some d) now =
     (if d - now \<le> - one_day then ''overdue''
      else if d - now \<le> 0 then ''due-today''
      else if d - now \<le> 3 * one_day then ''due-soon''
      else ''none'')"
proof -
  define x where "x = rat_of_int (d - now) / rat_of_int one_day"
  have le: "\<lceil>x\<rceil> \<le> c \<longleftrightarrow> d - now \<le> c * one_day" for c
  proof -
    have "\<lceil>x\<rceil> \<le> c \<longleftrightarrow> x \<le> rat_of_int c" by (rule ceiling_le_iff)
    also have "\<dots> \<longleftrightarrow> rat_of_int (d - now) \<le> rat_of_int c * rat_of_int one_day"
      unfolding x_def by (simp add: pos_divide_le_eq one_day_def)
    also have "\<dots> \<longleftrightarrow> rat_of_int (d - now) \<le> rat_of_int (c * one_day)"
      by (simp only: of_int_mult)
    also have "\<dots> \<longleftrightarrow> d - now \<le> c * one_day" by (rule of_int_le_iff)
    finally show ?thesis .
  qed
  define k where "k = \<lceil>x\<rceil>"
  have m1: "k \<le> - 1 \<longleftrightarrow> d - now \<le> - one_day"
    using le [of "- 1"] by (simp only: k_def mult_minus1)
  have z: "k \<le> 0 \<longleftrightarrow> d - now \<le> 0"
    using le [of 0] by (simp only: k_def mult_zero_left)
  have three: "k \<le> 3 \<longleftrightarrow> d - now \<le> 3 * one_day"
    using le [of 3] by (simp only: k_def)
  have neg: "k < 0 \<longleftrightarrow> d - now \<le> - one_day"
    using m1 by linarith
  have zero: "k = 0 \<longleftrightarrow> \<not> d - now \<le> - one_day \<and> d - now \<le> 0"
    using m1 z by linarith
  have pos: "0 < k \<longleftrightarrow> \<not> d - now \<le> 0"
    using z by linarith
  show ?thesis
    unfolding classify_def option.case Let_def x_def [symmetric] k_def [symmetric]
    using neg zero three pos by auto
qed

lemma todosWithDeadlineStatus_length [simp]:
  "length (todosWithDeadlineStatus clock ts) = length ts"
  by (simp add: todosWithDeadlineStatus_def)

lemma todosWithDeadlineStatus_nth:
  "i < length ts \<Longrightarrow> todosWithDeadlineStatus clock ts ! i = add_deadlineStatus (clock i) (ts ! i)"
  by (simp add: todosWithDeadlineStatus_def nth_enumerate_eq)

lemma getAllTodos_data:
  assumes "getAllTodos clock db q = Json_ok (ds, pg)"
  shows "\<exists>ts. ds = todosWithDeadlineStatus clock ts"
  using assms by (auto simp: getAllTodos_def Let_def split: sum.splits)

subsection \<open>Offsets\<close>

lemma round_half_even_nonneg: "0 \<le> x \<Longrightarrow> 0 \<le> round_half_even x"
  by (auto simp: round_half_even_def Let_def)

lemma nearest_double_nonneg: "0 \<le> a \<Longrightarrow> 0 < b \<Longrightarrow> 0 \<le> nearest_double a b"
  by (auto simp: nearest_double_def Let_def intro!: mult_nonneg_nonneg round_half_even_nonneg
      divide_nonneg_nonneg)

lemma js_of_int_exact: "\<bar>n\<bar> \<le> 2 ^ 53 \<Longrightarrow> js_of_int n = Num n"
  by (simp add: js_of_int_def)

lemma js_of_int_nonpos:
  assumes "n \<le> 0"
  shows "js_of_int n = NegInf \<or> (\<exists>k\<le>0. js_of_int n = Num k)"
proof -
  have "0 \<le> nearest_double \<bar>n\<bar> 1" by (rule nearest_double_nonneg) simp_all
  then have "0 \<le> \<lfloor>nearest_double \<bar>n\<bar> 1\<rfloor>" by simp
  with assms have "sgn n * \<lfloor>nearest_double \<bar>n\<bar> 1\<rfloor> \<le> 0"
    by (simp add: mult_le_0_iff sgn_if)
  with assms show ?thesis by (auto simp: js_of_int_def Let_def)
qed

text \<open>A page up to 1 gives no positive offset, whatever the rounding.\<close>

lemma js_offset_nonpos:
  assumes "p \<le> 1" and "1 \<le> l"
  shows "\<not> js_greater_int (js_offset (Num p) (Num l)) 0"
proof -
  from assms(1) have "p - 1 \<le> 0" by simp
  from js_of_int_nonpos [OF this] show ?thesis
  proof
    assume "js_of_int (p - 1) = NegInf"
    with assms(2) show ?thesis by (simp add: js_offset_def signed_inf_def)
  next
    assume "\<exists>k\<le>0. js_of_int (p - 1) = Num k"
    then obtain k where k: "k \<le> 0" "js_of_int (p - 1) = Num k" by blast
    with assms(2) have "k * l \<le> 0" by (simp add: mult_le_0_iff)
    from js_of_int_nonpos [OF this] k(2) show ?thesis
      by (auto simp: js_offset_def)
  qed
qed

lemma js_offset_NaN [simp]: "js_offset NaN l = NaN"
  by (simp add: js_offset_def)

text \<open>Up to \<open>2^53\<close> the offset is the exact product.\<close>

lemma js_offset_exact:
  assumes "1 \<le> p" and "1 \<le> l" and "(p - 1) * l \<le> 2 ^ 53"
  shows "js_offset (Num p) (Num l) = Num ((p - 1) * l)"
proof -
  from assms(1,2) have "p - 1 \<le> (p - 1) * l" by (simp add: mult_le_cancel_left1)
  with assms have "\<bar>p - 1\<bar> \<le> 2 ^ 53" by simp
  moreover from assms have "\<bar>(p - 1) * l\<bar> \<le> 2 ^ 53" by simp
  ultimately show ?thesis by (simp add: js_offset_def js_of_int_exact)
qed

lemma round_half_even_ge: "rat_of_int c \<le> y \<Longrightarrow> c \<le> round_half_even y"
proof -
  assume "rat_of_int c \<le> y"
  then have "c \<le> \<lfloor>y\<rfloor>" by (simp add: le_floor_iff)
  moreover have "\<lfloor>y\<rfloor> \<le> round_half_even y" by (simp add: round_half_even_def Let_def)
  ultimately show ?thesis by simp
qed

lemma nearest_double_ge:
  assumes "2 ^ j \<le> a"
  shows "2 ^ j \<le> nearest_double a 1"
proof -
  have "(0::int) < 2 ^ j" by simp
  with assms have a: "0 < a" by linarith
  define e where "e = binary_exponent a 1"
  from binary_exponent_bounds [OF a, of 1]
  have lo: "2 powi e \<le> rat_of_int a" and hi: "rat_of_int a < 2 powi (e + 1)"
    by (simp_all add: e_def)
  from assms have "rat_of_int (2 ^ j) \<le> rat_of_int a" by (simp only: of_int_le_iff)
  then have "(2::rat) ^ j \<le> rat_of_int a" by simp
  from this hi have lt: "(2::rat) ^ j < 2 powi (e + 1)" by (rule le_less_trans)
  have "int j < e + 1"
  proof (rule ccontr)
    assume "\<not> int j < e + 1"
    then have "e + 1 \<le> int j" by simp
    then have "(2::rat) powi (e + 1) \<le> 2 powi int j" by (rule power_int_increasing) simp
    with lt show False by simp
  qed
  then have je: "int j \<le> e" by simp
  define s :: rat where "s = 2 powi (52 - e)"
  define u :: rat where "u = 2 powi (e - 52)"
  have s0: "0 < s" and u0: "0 < u" by (simp_all add: s_def u_def)
  have "2 powi e * s = (2::rat) powi (e + (52 - e))"
    unfolding s_def by (rule power_int_add [symmetric]) simp
  then have es: "2 powi e * s = (2::rat) ^ 52" by simp
  from lo s0 have "2 powi e * s \<le> rat_of_int a * s" by (simp add: mult_right_mono)
  with es have "rat_of_int (2 ^ 52) \<le> rat_of_int a * s" by simp
  then have m: "2 ^ 52 \<le> round_half_even (rat_of_int a * s)" by (rule round_half_even_ge)
  have nd: "nearest_double a 1 = rat_of_int (round_half_even (rat_of_int a * s)) * u"
    using a by (simp add: nearest_double_def Let_def e_def s_def u_def)
  from m have "rat_of_int (2 ^ 52) \<le> rat_of_int (round_half_even (rat_of_int a * s))"
    by (simp only: of_int_le_iff)
  with u0 have "rat_of_int (2 ^ 52) * u \<le> nearest_double a 1"
    unfolding nd by (simp add: mult_right_mono)
  moreover have "(2::rat) powi 52 * u = 2 powi (52 + (e - 52))"
    unfolding u_def by (rule power_int_add [symmetric]) simp
  then have "rat_of_int (2 ^ 52) * u = 2 powi e" by simp
  moreover from je have "(2::rat) powi int j \<le> 2 powi e" by (rule power_int_increasing) simp
  ultimately show ?thesis by simp
qed

lemma js_of_int_overflow:
  assumes "2 ^ 1024 \<le> n"
  shows "js_of_int n = PosInf"
proof -
  from nearest_double_ge [OF assms] have "2 ^ 1024 \<le> nearest_double n 1" .
  moreover from assms have "0 < n" "\<not> \<bar>n\<bar> \<le> 2 ^ 53" "\<bar>n\<bar> = n" by simp_all
  ultimately show ?thesis by (simp add: js_of_int_def Let_def)
qed

lemma js_of_int_big:
  assumes "2 ^ j \<le> n"
  shows "js_of_int n = PosInf \<or> (\<exists>k. 2 ^ j \<le> k \<and> js_of_int n = Num k)"
proof (cases "\<bar>n\<bar> \<le> 2 ^ 53")
  case True
  with assms show ?thesis by (simp add: js_of_int_def)
next
  case False
  have "(0::int) < 2 ^ j" by simp
  with assms have n: "0 < n" "\<bar>n\<bar> = n" by linarith+
  from nearest_double_ge [OF assms] have "rat_of_int (2 ^ j) \<le> nearest_double n 1" by simp
  then have "2 ^ j \<le> \<lfloor>nearest_double n 1\<rfloor>" by (simp only: le_floor_iff)
  with False n show ?thesis by (simp add: js_of_int_def Let_def)
qed

text \<open>Beyond the range of a double the offset is an infinity.\<close>

lemma js_offset_overflow:
  assumes "2 ^ 1023 \<le> p" and "4 \<le> l"
  shows "js_offset (Num p) (Num l) = PosInf"
proof -
  from assms(1) have "2 ^ 1022 \<le> p - 1" by simp
  from js_of_int_big [OF this] show ?thesis
  proof
    assume "js_of_int (p - 1) = PosInf"
    with assms(2) show ?thesis by (simp add: js_offset_def signed_inf_def)
  next
    assume "\<exists>k. 2 ^ 1022 \<le> k \<and> js_of_int (p - 1) = Num k"
    then obtain k where k: "2 ^ 1022 \<le> k" "js_of_int (p - 1) = Num k" by blast
    from k(1) assms(2) have "2 ^ 1022 * 4 \<le> k * l" by (intro mult_mono) simp_all
    then have "2 ^ 1024 \<le> k * l" by simp
    from js_of_int_overflow [OF this] k(2) show ?thesis by (simp add: js_offset_def)
  qed
qed

subsection \<open>The list operation\<close>

lemma order_by_sorted_query:
  "order_by (sorted_query q) = Some (sort_field q, sort_dir q)"
  by (auto simp: sorted_query_def fs_orderBy_def sort_field_def sort_dir_def Let_def
      split: option.splits)

lemma where_status_sorted_query:
  "where_status (sorted_query q) =
     (case q_status q of
        None \<Rightarrow> None
      | Some s \<Rightarrow> if s \<in> set valid_statuses then Some s else None)"
  by (auto simp: sorted_query_def fs_orderBy_def fs_where_def collection_def Let_def
      valid_statuses_def split: option.splits)

lemma found_matching:
  "(case where_status (sorted_query q) of
      None \<Rightarrow> todos db
    | Some s \<Rightarrow> filter (\<lambda>t. status t = s) (todos db)) = matching db q"
proof (cases "q_status q")
  case None
  then have "matches q = (\<lambda>t. True)"
    by (simp add: fun_eq_iff matches_def)
  with None show ?thesis by (simp add: where_status_sorted_query matching_def)
next
  case (Some s)
  then have "matches q = (\<lambda>t. if s \<in> set valid_statuses then status t = s else True)"
    by (simp add: fun_eq_iff matches_def)
  with Some show ?thesis by (simp add: where_status_sorted_query matching_def)
qed

lemma fs_matching_sorted_query:
  "fs_matching db (sorted_query q) = requested_order db q"
  unfolding fs_matching_def found_matching
  by (simp add: order_by_sorted_query requested_order_def)

lemma fs_matching_limit_to [simp]: "fs_matching db (Q\<lparr>limit_to := n\<rparr>) = fs_matching db Q"
  by (simp add: fs_matching_def)

lemma fs_matching_start_after [simp]: "fs_matching db (Q\<lparr>start_after := c\<rparr>) = fs_matching db Q"
  by (simp add: fs_matching_def)

lemma start_after_sorted_query [simp]: "start_after (sorted_query q) = None"
  by (simp add: sorted_query_def fs_orderBy_def fs_where_def collection_def Let_def
      split: option.splits)

lemma after_cursor_nth:
  "distinct (map doc_id xs) \<Longrightarrow> k < length xs
   \<Longrightarrow> after_cursor (doc_id (xs ! k)) xs = drop (Suc k) xs"
proof (induction xs arbitrary: k)
  case Nil
  then show ?case by simp
next
  case (Cons x xs)
  show ?case
  proof (cases k)
    case 0
    then show ?thesis by simp
  next
    case (Suc j)
    with Cons.prems have j: "j < length xs" by simp
    then have "xs ! j \<in> set xs" by simp
    with Cons.prems(1) have "doc_id x \<noteq> doc_id (xs ! j)" by auto
    with Cons.IH [of j] Cons.prems(1) j Suc show ?thesis by simp
  qed
qed

lemma after_last_taken:
  assumes "distinct (map doc_id xs)" and "0 < n" and "xs \<noteq> []"
  shows "after_cursor (doc_id (last (take n xs))) xs = drop n xs"
proof -
  define k where "k = min (length xs) n - 1"
  from assms have k: "k < length xs" "Suc k = min (length xs) n" "k < n"
    by (auto simp: k_def min_def)
  have ne: "take n xs \<noteq> []" using assms by auto
  have "last (take n xs) = take n xs ! k"
    using ne k by (simp add: last_conv_nth k_def)
  also have "\<dots> = xs ! k" using k by simp
  finally have "after_cursor (doc_id (last (take n xs))) xs = drop (Suc k) xs"
    using after_cursor_nth [OF assms(1) k(1)] by simp
  also have "\<dots> = drop n xs" using k(2) by (auto simp: min_def)
  finally show ?thesis .
qed

lemma distinct_ids_requested_order:
  assumes "unique_ids db" and "orders_all db (sort_field q)"
  shows "distinct (map doc_id (requested_order db q))"
proof -
  from assms(1) have "distinct (map doc_id (matching db q))"
    by (simp add: unique_ids_def matching_def distinct_map_filter)
  moreover from assms(2) have "mset (requested_order db q) = mset (matching db q)"
    by (simp add: orders_all_def requested_order_def)
  then have "mset (map doc_id (requested_order db q)) = mset (map doc_id (matching db q))"
    by simp
  ultimately show ?thesis
    by (metis mset_eq_imp_distinct_iff)
qed

lemma length_requested_order:
  assumes "orders_all db (sort_field q)"
  shows "length (requested_order db q) = length (matching db q)"
proof -
  from assms have "mset (requested_order db q) = mset (matching db q)"
    by (simp add: orders_all_def requested_order_def)
  then show ?thesis by (rule mset_eq_length)
qed

text \<open>The query that line 103 executes returns the window of the ordered sequence.\<close>

lemma paged_window:
  assumes lim: "limitNum_of q = Num l" "1 \<le> l"
    and pg: "pageNum_of q = Num p"
    and dist: "1 < p \<Longrightarrow> distinct (map doc_id (requested_order db q))"
    and exact: "1 < p \<Longrightarrow> (p - 1) * l \<le> 2 ^ 53"
  shows "\<exists>query. paged_query db q = Inr query
           \<and> fs_get db query = Inr (take (nat l) (drop (nat ((p - 1) * l)) (requested_order db q)))"
proof (cases "1 < p")
  case False
  then have "(p - 1) * l \<le> 0" using lim(2) by (simp add: mult_le_0_iff)
  moreover from False lim(2) have "\<not> js_greater_int (js_offset (Num p) (Num l)) 0"
    by (intro js_offset_nonpos) simp_all
  ultimately show ?thesis using lim pg
    by (simp add: paged_query_def Let_def fs_get_def fs_matching_sorted_query fs_limit_def)
next
  case True
  then have off: "0 < (p - 1) * l" using lim(2) by simp
  from True lim(2) exact have jo: "js_offset (Num p) (Num l) = Num ((p - 1) * l)"
    by (intro js_offset_exact) simp_all
  let ?xs = "requested_order db q"
  let ?n = "nat ((p - 1) * l)"
  have skip: "fs_get db (fs_limit (Num ((p - 1) * l)) (fs_limit (Num l) (sorted_query q)))
                = Inr (take ?n ?xs)"
    using off by (simp add: fs_get_def fs_matching_sorted_query fs_limit_def)
  show ?thesis
  proof (cases "?xs = []")
    case True
    then show ?thesis using off lim pg skip jo
      by (simp add: paged_query_def Let_def fs_get_def fs_matching_sorted_query fs_limit_def)
  next
    case False
    with off have ne: "take ?n ?xs \<noteq> []" by auto
    have "after_cursor (doc_id (last (take ?n ?xs))) ?xs = drop ?n ?xs"
      using after_last_taken [OF dist [OF True] _ False] off by simp
    then show ?thesis using off lim pg skip ne jo
      by (simp add: paged_query_def Let_def fs_get_def fs_matching_sorted_query fs_limit_def
          fs_startAfter_def)
  qed
qed

lemma getAllTodos_window:
  assumes lim: "limitNum_of q = Num l" "1 \<le> l"
    and pg: "pageNum_of q = Num p"
    and dist: "1 < p \<Longrightarrow> distinct (map doc_id (requested_order db q))"
    and exact: "1 < p \<Longrightarrow> (p - 1) * l \<le> 2 ^ 53"
  shows "getAllTodos clock db q =
     Json_ok (todosWithDeadlineStatus clock
                (take (nat l) (drop (nat ((p - 1) * l)) (requested_order db q))),
              \<lparr>page = Num p, limit = Num l, totalCount = length (requested_order db q),
               totalPages = Num \<lceil>rat_of_nat (length (requested_order db q)) / rat_of_int l\<rceil>,
               hasNextPage = (p < \<lceil>rat_of_nat (length (requested_order db q)) / rat_of_int l\<rceil>),
               hasPrevPage = (1 < p)\<rparr>)"
proof -
  from paged_window [OF lim pg dist exact] obtain query where
    "paged_query db q = Inr query"
    "fs_get db query = Inr (take (nat l) (drop (nat ((p - 1) * l)) (requested_order db q)))"
    by blast
  then show ?thesis using lim pg
    by (simp add: getAllTodos_def Let_def fs_count_def fs_matching_sorted_query)
qed


lemma getAllTodos_refused_limit:
  assumes bad: "limitNum_of q = NaN \<or> (\<exists>l\<le>0. limitNum_of q = Num l)"
    and refuse: "\<forall>ds. \<exists>e. bad_limit db (limitNum_of q) ds = Inl e"
  shows "getAllTodos clock db q = Json_fail 500 ''Failed to fetch todos''"
proof -
  have get: "\<And>Q. limit_to Q = Some (limitNum_of q) \<Longrightarrow> \<exists>e. fs_get db Q = Inl e"
    using bad refuse by (auto simp: fs_get_def Let_def)
  show ?thesis
  proof (cases "paged_query db q")
    case (Inl e)
    then show ?thesis by (simp add: getAllTodos_def Let_def)
  next
    case (Inr query)
    then have "limit_to query = Some (limitNum_of q)"
      by (auto simp: paged_query_def Let_def fs_limit_def fs_startAfter_def
          split: if_splits sum.splits)
    from get [OF this] Inr show ?thesis
      by (auto simp: getAllTodos_def Let_def)
  qed
qed

lemma getAllTodos_offset_overflow:
  assumes "pageNum_of q = Num p" and "limitNum_of q = Num l" and "2 ^ 1023 \<le> p" and "4 \<le> l"
    and "\<forall>ds. \<exists>e. bad_limit db PosInf ds = Inl e"
  shows "getAllTodos clock db q = Json_fail 500 ''Failed to fetch todos''"
proof -
  from assms(5) obtain e where
    "bad_limit db PosInf (fs_matching db (sorted_query q)) = Inl e" by blast
  with js_offset_overflow [OF assms(3,4)] assms(1,2) show ?thesis
    by (simp add: getAllTodos_def paged_query_def Let_def fs_get_def fs_limit_def)
qed

lemma ceiling_quotient_le:
  assumes "0 < l" and "int t \<le> m * l"
  shows "\<lceil>rat_of_nat t / rat_of_int l\<rceil> \<le> m"
proof -
  from assms(2) have "rat_of_int (int t) \<le> rat_of_int (m * l)"
    by (simp only: of_int_le_iff)
  then have "rat_of_nat t \<le> rat_of_int m * rat_of_int l" by simp
  with assms(1) have "rat_of_nat t / rat_of_int l \<le> rat_of_int m"
    by (simp add: pos_divide_le_eq)
  then show ?thesis by (simp add: ceiling_le_iff)
qed

lemma sample_todos_ids: "distinct (map doc_id (sample_todos n k))"
proof -
  have "map doc_id (sample_todos n k) = map (\<lambda>i. replicate (Suc i) (CHR ''a'')) [0..<n]"
    by (simp add: sample_todos_def mk_todo_def)
  moreover have "inj_on (\<lambda>i. replicate (Suc i) (CHR ''a'')) (set [0..<n])"
  proof (rule inj_onI)
    fix i j :: nat
    assume "replicate (Suc i) (CHR ''a'') = replicate (Suc j) (CHR ''a'')"
    then have "length (replicate (Suc i) (CHR ''a'')) = length (replicate (Suc j) (CHR ''a''))"
      by (rule arg_cong)
    then show "i = j" by simp
  qed
  ultimately show ?thesis by (simp add: distinct_map)
qed

lemma plain_store_unique: "unique_ids (plain_store (sample_todos n k))"
  by (simp add: unique_ids_def plain_store_def sample_todos_ids)

lemma plain_store_orders_all: "orders_all (plain_store ts) f"
  by (simp add: orders_all_def plain_store_def)

lemma sample_todos_pending:
  "k \<le> n \<Longrightarrow> length (matching (plain_store (sample_todos n k)) (list_request (Some ''pending'') p l)) = n - k"
proof -
  assume kn: "k \<le> n"
  have m: "matches (list_request (Some ''pending'') p l) = (\<lambda>t. status t = ''pending'')"
    by (simp add: fun_eq_iff matches_def list_request_def valid_statuses_def)
  have "filter (\<lambda>t. status t = ''pending'') (sample_todos n k)
          = map (\<lambda>i. mk_todo (replicate (Suc i) (CHR ''a'')) ''pending'' None) [k..<n]"
  proof -
    have "[0..<n] = [0..<k] @ [k..<n]" using kn by (metis le0 upt_add_eq_append le_add_diff_inverse)
    then show ?thesis
      by (simp add: sample_todos_def filter_map o_def mk_todo_def cong: map_cong filter_cong)
  qed
  then show ?thesis by (simp add: matching_def plain_store_def m)
qed

lemma example_db_order:
  "requested_order example_db (list_request None p l) = rev (todos example_db)"
  by (simp add: requested_order_def matching_def matches_def list_request_def sort_dir_def
      example_db_def plain_store_def)

lemma example_db_unique: "unique_ids example_db"
  by (simp add: unique_ids_def example_db_def plain_store_def mk_todo_def)

lemma example_db_length: "length (todos example_db) = 4"
  by (simp add: example_db_def plain_store_def)

subsection \<open>Deadline status of the listed records\<close>

text \<open>
  Claim C1. Every record that the list operation returns carries the status that the
  classifier of section 4.2 gives for its deadline and the time read for it: \<^verbatim>\<open>none\<close>
  without a deadline; otherwise, with daysUntil the ceiling of (deadline - now) / 1 day,
  \<^verbatim>\<open>overdue\<close> below 0, \<^verbatim>\<open>due-today\<close> at 0, \<^verbatim>\<open>due-soon\<close> from 1 to 3 and \<^verbatim>\<open>none\<close> above 3.
\<close>

theorem getAllTodos_deadlineStatus:
  assumes "getAllTodos clock db q = Json_ok (ds, pg)" and "i < length ds"
  shows "(deadline (ds ! i) = None \<longrightarrow> deadlineStatus (ds ! i) = classify None (clock i))
       \<and> (\<forall>d. deadline (ds ! i) = Some (Time d)
              \<longrightarrow> deadlineStatus (ds ! i) = classify (Some d) (clock i))"
proof -
  from assms(1) obtain ts where ds: "ds = todosWithDeadlineStatus clock ts"
    using getAllTodos_data by blast
  with assms(2) have i: "i < length ts" by simp
  have "ds ! i = add_deadlineStatus (clock i) (ts ! i)"
    by (simp add: ds todosWithDeadlineStatus_nth i)
  then show ?thesis
    by (auto simp: add_deadlineStatus_def deadlineStatus_of_None deadlineStatus_of_Time)
qed

theorem getAllTodos_deadlineStatus_witness:
  "\<exists>ds pg. getAllTodos (ticking 1000) example_db (list_request None (Num 1) (Num 10))
              = Json_ok (ds, pg)
     \<and> length ds = 4
     \<and> deadline (ds ! 1) = Some (Time 999)
     \<and> deadlineStatus (ds ! 1) = classify (Some 999) 1001
     \<and> classify (Some 999) 1001 = ''due-today''
     \<and> deadline (ds ! 0) = None
     \<and> deadlineStatus (ds ! 0) = classify None 1000"
proof -
  let ?q = "list_request None (Num 1) (Num 10)"
  let ?ds = "todosWithDeadlineStatus (ticking 1000) (rev (todos example_db))"
  have p: "pageNum_of ?q = Num 1" by (simp add: pageNum_of_def list_request_def)
  have l: "limitNum_of ?q = Num 10" by (simp add: limitNum_of_def list_request_def)
  from getAllTodos_window [OF l _ p, of example_db "ticking 1000"] obtain pg where
    r: "getAllTodos (ticking 1000) example_db ?q = Json_ok (?ds, pg)"
    by (simp add: example_db_order example_db_length)
  have n: "length ?ds = 4" by (simp add: example_db_length)
  have d1: "deadline (?ds ! 1) = Some (Time 999)" and d0: "deadline (?ds ! 0) = None"
    by (simp_all add: todosWithDeadlineStatus_nth example_db_length add_deadlineStatus_def)
       (simp_all add: example_db_def plain_store_def mk_todo_def)
  have i1: "1 < length ?ds" and i0: "0 < length ?ds" using n by simp_all
  from getAllTodos_deadlineStatus [OF r i1] d1
  have s1: "deadlineStatus (?ds ! 1) = classify (Some 999) 1001"
    by (simp add: ticking_def)
  from getAllTodos_deadlineStatus [OF r i0] d0
  have s0: "deadlineStatus (?ds ! 0) = classify None 1000"
    by (simp add: ticking_def)
  have c: "classify (Some 999) 1001 = ''due-today''"
    by (simp add: classify_thresholds one_day_def)
  from r n d1 s1 c d0 s0 show ?thesis by blast
qed

text \<open>
  Claim C6. At now = T the list operation classifies a deadline of T as \<^verbatim>\<open>due-today\<close>, of
  T + 2 days as \<^verbatim>\<open>due-soon\<close> and of T + 10 days as \<^verbatim>\<open>none\<close>. A deadline of T - 1 second
  is classified \<^verbatim>\<open>due-today\<close>, not \<^verbatim>\<open>overdue\<close>: the ceiling of a quotient in (-1, 0) is 0.
  The statistics operation counts the same record as overdue.
\<close>

theorem deadlineStatus_examples:
  "deadlineStatus_of T (Some (Time (T - 1000))) = ''due-today''
   \<and> deadlineStatus_of T (Some (Time T)) = ''due-today''
   \<and> deadlineStatus_of T (Some (Time (T + 2 * one_day))) = ''due-soon''
   \<and> deadlineStatus_of T (Some (Time (T + 10 * one_day))) = ''none''
   \<and> counts_as_overdue T (mk_todo ''a1'' ''pending'' (Some (Time (T - 1000))))"
  by (simp add: deadlineStatus_of_def daysUntilDeadline_div one_day_def counts_as_overdue_def
      mk_todo_def del: daysUntilDeadline.simps(2))

subsection \<open>Filtering and paging\<close>

lemma sorted_query_invalid_status:
  "s \<notin> set valid_statuses \<Longrightarrow> sorted_query (q\<lparr>q_status := Some s\<rparr>) = sorted_query (q\<lparr>q_status := None\<rparr>)"
  by (simp add: sorted_query_def)

text \<open>
  Claim C5. A status filter that is none of \<^verbatim>\<open>pending\<close>, \<^verbatim>\<open>in-progress\<close>, \<^verbatim>\<open>completed\<close> is
  ignored: the response, records and pagination metadata, is that of the same request
  without a status filter.
\<close>

theorem getAllTodos_invalid_status_ignored:
  assumes "s \<notin> set valid_statuses"
  shows "getAllTodos clock db (q\<lparr>q_status := Some s\<rparr>) = getAllTodos clock db (q\<lparr>q_status := None\<rparr>)"
  by (simp add: getAllTodos_def paged_query_def sorted_query_invalid_status [OF assms]
      pageNum_of_def limitNum_of_def)

theorem getAllTodos_invalid_status_ignored_witness:
  "''foo'' \<notin> set valid_statuses
   \<and> getAllTodos (at_time 1000) example_db (list_request (Some ''foo'') (Num 1) (Num 2))
     = getAllTodos (at_time 1000) example_db (list_request None (Num 1) (Num 2))"
proof -
  have h: "''foo'' \<notin> set valid_statuses" by (simp add: valid_statuses_def)
  have "list_request (Some ''foo'') (Num 1) (Num 2)
          = (list_request None (Num 1) (Num 2))\<lparr>q_status := Some ''foo''\<rparr>"
    "list_request None (Num 1) (Num 2) = (list_request None (Num 1) (Num 2))\<lparr>q_status := None\<rparr>"
    by (simp_all add: list_request_def)
  with getAllTodos_invalid_status_ignored
         [OF h, of "at_time 1000" example_db "list_request None (Num 1) (Num 2)"] h
  show ?thesis by simp
qed

text \<open>
  Claim C2, as stated, fails: a request sorted by \<^verbatim>\<open>priority\<close>, a field that no document
  has, reports total 0 and no records, while four records match the (empty) status
  predicate.
\<close>

theorem getAllTodos_total_of_missing_field:
  "getAllTodos (at_time 1000) (store_without_priority (todos example_db)) request_by_priority =
     Json_ok ([],
       \<lparr>page = Num 1, limit = Num 10, totalCount = 0, totalPages = Num 0,
        hasNextPage = False, hasPrevPage = False\<rparr>)
   \<and> length (matching (store_without_priority (todos example_db)) request_by_priority) = 4"
proof -
  let ?db = "store_without_priority (todos example_db)"
  have p: "pageNum_of request_by_priority = Num 1"
    by (simp add: pageNum_of_def request_by_priority_def)
  have l: "limitNum_of request_by_priority = Num 10"
    by (simp add: limitNum_of_def request_by_priority_def)
  have o: "requested_order ?db request_by_priority = []"
    by (simp add: requested_order_def store_without_priority_def sort_field_def
        request_by_priority_def)
  have m: "length (matching ?db request_by_priority) = 4"
    by (simp add: matching_def matches_def request_by_priority_def store_without_priority_def
        plain_store_def example_db_length)
  from getAllTodos_window [OF l _ p, of ?db "at_time 1000"] o m show ?thesis
    by (simp add: todosWithDeadlineStatus_def)
qed

text \<open>
  Claim C2, amended. When every document has the sort field and the offset
  (p - 1) * l is at most 2^53 (so that the product of line 86 is exact): for a positive
  integer page p and limit l, and t the number of records that
  match the status predicate, the list operation returns the window of l records at offset
  (p - 1) * l of the ordered matching records, with page = p, limit = l, total = t,
  totalPages = ceil(t / l), hasNextPage = (p < totalPages) and hasPrevPage = (p > 1).
  With 25 matching records and limit 10, page 1 has 10 records, a next page, no previous
  page and totalPages 3; page 3 has 5 records and no next page.
\<close>

theorem getAllTodos_pagination:
  assumes "unique_ids db" and "orders_all db (sort_field q)"
    and "pageNum_of q = Num p" and "limitNum_of q = Num l" and "1 \<le> p" and "1 \<le> l"
    and "(p - 1) * l \<le> 2 ^ 53"
  shows "\<exists>ds pg. getAllTodos clock db q = Json_ok (ds, pg)
     \<and> ds = todosWithDeadlineStatus clock
              (take (nat l) (drop (nat ((p - 1) * l)) (requested_order db q)))
     \<and> page pg = Num p \<and> limit pg = Num l \<and> totalCount pg = length (matching db q)
     \<and> totalPages pg = Num \<lceil>rat_of_nat (length (matching db q)) / rat_of_int l\<rceil>
     \<and> hasNextPage pg = (p < \<lceil>rat_of_nat (length (matching db q)) / rat_of_int l\<rceil>)
     \<and> hasPrevPage pg = (1 < p)
     \<and> (length (matching db q) = 25 \<and> l = 10 \<and> p = 1
          \<longrightarrow> length ds = 10 \<and> hasNextPage pg \<and> \<not> hasPrevPage pg
              \<and> totalPages pg = Num 3)
     \<and> (length (matching db q) = 25 \<and> l = 10 \<and> p = 3
          \<longrightarrow> length ds = 5 \<and> \<not> hasNextPage pg)"
proof -
  have len: "length (requested_order db q) = length (matching db q)"
    by (rule length_requested_order [OF assms(2)])
  have "\<lceil>rat_of_int 5 / rat_of_int 2\<rceil> = - (- 5 div 2)"
    by (rule ceiling_divide_eq_div)
  then have c: "\<lceil>(5::rat) / 2\<rceil> = 3" by simp
  from getAllTodos_window [OF assms(4) assms(6) assms(3)
      distinct_ids_requested_order [OF assms(1) assms(2)] assms(7), of clock]
  show ?thesis
    by (intro exI) (auto simp: len c)
qed

theorem getAllTodos_pagination_witness:
  "unique_ids (plain_store (sample_todos 30 5))
   \<and> orders_all (plain_store (sample_todos 30 5))
         (sort_field (list_request (Some ''pending'') (Num 3) (Num 10)))
   \<and> length (matching (plain_store (sample_todos 30 5))
                (list_request (Some ''pending'') (Num 3) (Num 10))) = 25
   \<and> (\<exists>ds pg. getAllTodos (at_time 0) (plain_store (sample_todos 30 5))
                  (list_request (Some ''pending'') (Num 3) (Num 10)) = Json_ok (ds, pg)
          \<and> length ds = 5 \<and> \<not> hasNextPage pg \<and> hasPrevPage pg
          \<and> totalPages pg = Num 3 \<and> totalCount pg = 25)
   \<and> (\<exists>ds pg. getAllTodos (at_time 0) (plain_store (sample_todos 30 5))
                  (list_request (Some ''pending'') (Num 1) (Num 10)) = Json_ok (ds, pg)
          \<and> length ds = 10 \<and> hasNextPage pg \<and> \<not> hasPrevPage pg
          \<and> totalPages pg = Num 3)"
proof -
  let ?db = "plain_store (sample_todos 30 5)"
  let ?q = "list_request (Some ''pending'') (Num 3) (Num 10)"
  let ?q1 = "list_request (Some ''pending'') (Num 1) (Num 10)"
  have u: "unique_ids ?db" by (rule plain_store_unique)
  have o: "orders_all ?db (sort_field ?q)" and o1: "orders_all ?db (sort_field ?q1)"
    by (rule plain_store_orders_all)+
  have p: "pageNum_of ?q = Num 3" and p1: "pageNum_of ?q1 = Num 1"
    by (simp_all add: pageNum_of_def list_request_def)
  have l: "limitNum_of ?q = Num 10" and l1: "limitNum_of ?q1 = Num 10"
    by (simp_all add: limitNum_of_def list_request_def)
  have n: "length (matching ?db ?q) = 25" and n1: "length (matching ?db ?q1) = 25"
    by (simp_all add: sample_todos_pending)
  have "\<lceil>rat_of_int 5 / rat_of_int 2\<rceil> = - (- 5 div 2)"
    by (rule ceiling_divide_eq_div)
  then have c: "\<lceil>(5::rat) / 2\<rceil> = 3" by simp
  have three: "(1::int) \<le> 3" and ten: "(1::int) \<le> 10" and one: "(1::int) \<le> 1"
    and x3: "((3::int) - 1) * 10 \<le> 2 ^ 53" and x1: "((1::int) - 1) * 10 \<le> 2 ^ 53"
    by simp_all
  from getAllTodos_pagination [OF u o p l three ten x3, of "at_time 0"] obtain ds pg where
    r: "getAllTodos (at_time 0) ?db ?q = Json_ok (ds, pg)"
    and tc: "totalCount pg = length (matching ?db ?q)"
    and tp: "totalPages pg = Num \<lceil>rat_of_nat (length (matching ?db ?q)) / rat_of_int 10\<rceil>"
    and hp: "hasPrevPage pg = (1 < (3::int))"
    and ex: "length (matching ?db ?q) = 25 \<and> (10::int) = 10 \<and> (3::int) = 3
          \<longrightarrow> length ds = 5 \<and> \<not> hasNextPage pg"
    by blast
  from getAllTodos_pagination [OF u o1 p1 l1 one ten x1, of "at_time 0"] obtain ds1 pg1 where
    r1: "getAllTodos (at_time 0) ?db ?q1 = Json_ok (ds1, pg1)"
    and ex1: "length (matching ?db ?q1) = 25 \<and> (10::int) = 10 \<and> (1::int) = 1
          \<longrightarrow> length ds1 = 10 \<and> hasNextPage pg1 \<and> \<not> hasPrevPage pg1
              \<and> totalPages pg1 = Num 3"
    by blast
  from ex n have "length ds = 5" "\<not> hasNextPage pg" by simp_all
  moreover from tc n have "totalCount pg = 25" by simp
  moreover from tp n c have "totalPages pg = Num 3" by simp
  moreover from hp have "hasPrevPage pg" by simp
  ultimately have third: "\<exists>ds pg. getAllTodos (at_time 0) ?db ?q = Json_ok (ds, pg)
          \<and> length ds = 5 \<and> \<not> hasNextPage pg \<and> hasPrevPage pg
          \<and> totalPages pg = Num 3 \<and> totalCount pg = 25"
    using r by blast
  from ex1 n1 r1 have first: "\<exists>ds pg. getAllTodos (at_time 0) ?db ?q1 = Json_ok (ds, pg)
          \<and> length ds = 10 \<and> hasNextPage pg \<and> \<not> hasPrevPage pg
          \<and> totalPages pg = Num 3"
    by blast
  from u o n third first show ?thesis by blast
qed

text \<open>
  Claim C7, as stated, fails: on the empty collection, page 0 with limit -1 has offset 1,
  beyond the end, and the store refuses the limit: the answer is HTTP 500, not an empty
  page.
\<close>

theorem getAllTodos_negative_limit_beyond_end:
  "js_offset (pageNum_of (list_request None (Num 0) (Num (- 1))))
      (limitNum_of (list_request None (Num 0) (Num (- 1)))) = Num 1
   \<and> length (matching (plain_store []) (list_request None (Num 0) (Num (- 1)))) = 0
   \<and> getAllTodos (at_time 1000) (plain_store []) (list_request None (Num 0) (Num (- 1)))
       = Json_fail 500 ''Failed to fetch todos''"
proof -
  let ?q = "list_request None (Num 0) (Num (- 1))"
  have l: "limitNum_of ?q = Num (- 1)" by (simp add: limitNum_of_def list_request_def)
  have p: "pageNum_of ?q = Num 0" by (simp add: pageNum_of_def list_request_def)
  have "limitNum_of ?q = NaN \<or> (\<exists>l\<le>0. limitNum_of ?q = Num l)" by (simp add: l)
  moreover have "\<forall>ds. \<exists>e. bad_limit (plain_store []) (limitNum_of ?q) ds = Inl e"
    by (simp add: plain_store_def)
  ultimately have "getAllTodos (at_time 1000) (plain_store []) ?q
       = Json_fail 500 ''Failed to fetch todos''"
    by (rule getAllTodos_refused_limit)
  then show ?thesis
    by (simp add: l p js_offset_def js_of_int_def matching_def plain_store_def)
qed

text \<open>
  Claim C7, amended. For a positive integer limit, when every document has the sort field
  and the offset (page - 1) * limit is at most 2^53: when the offset is at or beyond the
  number of matching records, the list operation returns no records, and the metadata is
  that of claim C2 with hasNextPage false.
\<close>

theorem getAllTodos_beyond_end:
  assumes "unique_ids db" and "orders_all db (sort_field q)"
    and "pageNum_of q = Num p" and "limitNum_of q = Num l" and "1 \<le> l"
    and "int (length (matching db q)) \<le> (p - 1) * l"
    and "(p - 1) * l \<le> 2 ^ 53"
  shows "getAllTodos clock db q =
     Json_ok ([],
       \<lparr>page = Num p, limit = Num l, totalCount = length (matching db q),
        totalPages = Num \<lceil>rat_of_nat (length (matching db q)) / rat_of_int l\<rceil>,
        hasNextPage = False, hasPrevPage = (1 < p)\<rparr>)"
proof -
  have len: "length (requested_order db q) = length (matching db q)"
    by (rule length_requested_order [OF assms(2)])
  from assms(5) have "0 < l" by simp
  from ceiling_quotient_le [OF this assms(6)]
  have "\<not> p < \<lceil>rat_of_nat (length (matching db q)) / rat_of_int l\<rceil>" by simp
  moreover from assms(6) have "length (requested_order db q) \<le> nat ((p - 1) * l)"
    by (simp add: len)
  ultimately show ?thesis
    using getAllTodos_window [OF assms(4) assms(5) assms(3)
      distinct_ids_requested_order [OF assms(1) assms(2)] assms(7), of clock]
    by (simp add: len todosWithDeadlineStatus_def)
qed

theorem getAllTodos_beyond_end_witness:
  "getAllTodos (\<lambda>i. 1000) example_db (list_request None (Num 3) (Num 2)) =
     Json_ok ([],
       \<lparr>page = Num 3, limit = Num 2, totalCount = 4, totalPages = Num 2,
        hasNextPage = False, hasPrevPage = True\<rparr>)"
proof -
  let ?q = "list_request None (Num 3) (Num 2)"
  have u: "unique_ids example_db"
    by (simp add: unique_ids_def example_db_def plain_store_def mk_todo_def)
  have o: "orders_all example_db (sort_field ?q)"
    unfolding example_db_def by (rule plain_store_orders_all)
  have p: "pageNum_of ?q = Num 3" by (simp add: pageNum_of_def list_request_def)
  have l: "limitNum_of ?q = Num 2" by (simp add: limitNum_of_def list_request_def)
  have n: "length (matching example_db ?q) = 4"
    by (simp add: matching_def matches_def list_request_def example_db_def plain_store_def)
  have "\<lceil>rat_of_int 4 / rat_of_int 2\<rceil> = - (- 4 div 2)"
    by (rule ceiling_divide_eq_div)
  then have c: "\<lceil>(2::rat)\<rceil> = 2" by simp
  from getAllTodos_beyond_end [OF u o p l, of "\<lambda>i. 1000"] n c show ?thesis
    by simp
qed




end
